theory Spec2Isabelle
  imports Main
begin

section \<open>Strings\<close>

text \<open>
  The TypeScript source works on JavaScript strings. They are modelled as \<^typ>\<open>string\<close>;
  every operation used below (\<open>startsWith\<close>, \<open>endsWith\<close>, \<open>substring\<close>, \<open>split\<close>,
  \<open>join\<close>, \<open>===\<close>) acts position by position, so nothing depends on the size of the
  alphabet. A string is falsy in JavaScript exactly when it is empty.
\<close>

definition startsWith :: "string \<Rightarrow> string \<Rightarrow> bool" where
  "startsWith s p \<longleftrightarrow> take (length p) s = p"

definition endsWith :: "string \<Rightarrow> string \<Rightarrow> bool" where
  "endsWith s p \<longleftrightarrow> length p \<le> length s \<and> drop (length s - length p) s = p"

definition substring :: "string \<Rightarrow> nat \<Rightarrow> string" where
  "substring s n = drop n s"

fun split :: "char \<Rightarrow> string \<Rightarrow> string list" where
  "split c [] = [[]]"
| "split c (x # xs) =
     (if x = c then [] # split c xs
      else (case split c xs of [] \<Rightarrow> [[x]] | y # ys \<Rightarrow> (x # y) # ys))"

fun join :: "char \<Rightarrow> string list \<Rightarrow> string" where
  "join c [] = []"
| "join c [x] = x"
| "join c (x # y # zs) = x @ c # join c (y # zs)"

section \<open>Files of the vault\<close>

text \<open>
  Obsidian's \<open>TFile\<close>: \<open>path\<close> is relative to the vault, \<open>name\<close> is the last segment of
  the path and \<open>extension\<close> what follows the last dot of the name.
\<close>

record TFile =
  path :: string
  name :: string
  extension :: string

section \<open>SyncManager: paths and keys\<close>

text \<open>
  \<open>getFileKey\<close> and \<open>getLocalPathFromKey\<close> read \<open>this.app.vault.getName()\<close> and
  \<open>this.settings.baseFolder\<close>; both are arguments here. The first line of each is
  \<open>const baseFolder = this.settings.baseFolder || vaultName\<close>.
\<close>

definition getFileKey :: "string \<Rightarrow> string \<Rightarrow> TFile \<Rightarrow> string" where
  "getFileKey vaultName settingsBaseFolder file =
     (let baseFolder = (if settingsBaseFolder \<noteq> [] then settingsBaseFolder else vaultName) in
      if baseFolder \<noteq> [] \<and> startsWith (path file) (baseFolder @ ''/'')
        then substring (path file) (length baseFolder + 1)
      else if baseFolder \<noteq> [] \<and> path file = baseFolder then name file
      else if baseFolder \<noteq> [] then baseFolder @ ''/'' @ path file
      else path file)"

definition getLocalPathFromKey :: "string \<Rightarrow> string \<Rightarrow> string \<Rightarrow> string" where
  "getLocalPathFromKey vaultName settingsBaseFolder key =
     (let baseFolder = (if settingsBaseFolder \<noteq> [] then settingsBaseFolder else vaultName) in
      if startsWith key (baseFolder @ ''/'') then substring key (length baseFolder + 1)
      else if key = baseFolder then []
      else key)"

section \<open>The vault\<close>

text \<open>
  The vault is Obsidian's; the plugin reaches it through \<open>this.app.vault\<close>. It is modelled
  as an association list from paths to entries, a file with its content or a folder.
  \<open>getAbstractFileByPath\<close> is the lookup, \<open>getFiles\<close> lists the files in the order of the
  list. \<open>read\<close> and \<open>readBinary\<close> give the stored content and reject when there is no file
  at the path or when the environment makes the read fail; \<open>create\<close> and \<open>createFolder\<close>
  reject when something is already at the path. Contents are strings: the encoding of
  text as bytes is not modelled. A rejected promise is the value \<open>None\<close>.
\<close>

datatype entry = File string | Folder

type_synonym vault = "(string \<times> entry) list"

definition fileName :: "string \<Rightarrow> string" where
  "fileName p = last (split CHR ''/'' p)"

definition fileExtension :: "string \<Rightarrow> string" where
  "fileExtension n = (let parts = split CHR ''.'' n in if length parts > 1 then last parts else [])"

definition tfile :: "string \<Rightarrow> TFile" where
  "tfile p = \<lparr>path = p, name = fileName p, extension = fileExtension (fileName p)\<rparr>"

definition getAbstractFileByPath :: "vault \<Rightarrow> string \<Rightarrow> entry option" where
  "getAbstractFileByPath v p = map_of v p"

fun getFiles :: "vault \<Rightarrow> TFile list" where
  "getFiles [] = []"
| "getFiles ((p, File c) # v) = tfile p # getFiles v"
| "getFiles ((p, Folder) # v) = getFiles v"

definition modify :: "vault \<Rightarrow> string \<Rightarrow> string \<Rightarrow> vault" where
  "modify v p c = map (\<lambda>(q, e). if q = p then (q, File c) else (q, e)) v"

definition createFolder :: "vault \<Rightarrow> string \<Rightarrow> vault option" where
  "createFolder v p = (if map_of v p = None then Some (v @ [(p, Folder)]) else None)"

definition create :: "vault \<Rightarrow> string \<Rightarrow> string \<Rightarrow> vault option" where
  "create v p c = (if map_of v p = None then Some (v @ [(p, File c)]) else None)"

section \<open>The environment and the bucket\<close>

text \<open>
  What the code cannot decide is given by the environment: which requests to the object
  store fail, which reads of the vault fail, and the functions of the JavaScript runtime
  used on backup markers (\<open>JSON.stringify\<close>, \<open>JSON.parse\<close> followed by the reads of
  \<open>data.timestamp\<close> and \<open>data.folderPath\<close>, \<open>new Date(string)\<close> as milliseconds or
  \<open>None\<close> for an invalid date, and \<open>localeCompare\<close>). Over one operation the failure of a
  request is a function of its argument.
\<close>

record backup =
  timestamp :: string
  folderPath :: string

record env =
  putFails :: "string \<Rightarrow> bool"
  getFails :: "string \<Rightarrow> bool"
  listFails :: "string \<Rightarrow> bool"
  deleteFails :: "string \<Rightarrow> bool"
  readThrows :: "string \<Rightarrow> bool"
  jsonStringify :: "backup \<Rightarrow> string"
  jsonParse :: "string \<Rightarrow> backup option"
  dateParse :: "string \<Rightarrow> int option"
  localeCompare :: "string \<Rightarrow> string \<Rightarrow> int"

text \<open>The bucket: keys with the body and the content type of the object.\<close>

type_synonym bucket = "(string \<times> string \<times> string) list"

fun put :: "bucket \<Rightarrow> string \<Rightarrow> string \<times> string \<Rightarrow> bucket" where
  "put [] k obj = [(k, obj)]"
| "put ((k', obj') # b) k obj = (if k' = k then (k, obj) # b else (k', obj') # put b k obj)"

definition listKeys :: "bucket \<Rightarrow> string \<Rightarrow> string list" where
  "listKeys b prefix = filter (\<lambda>k. startsWith k prefix) (map fst b)"

definition deleteKey :: "bucket \<Rightarrow> string \<Rightarrow> bucket" where
  "deleteKey b k = filter (\<lambda>(k', obj). k' \<noteq> k) b"

section \<open>Settings and state\<close>

text \<open>
  The fields of \<open>R2SyncSettings\<close> that the modelled operations read or write;
  \<open>settingsSyncInProgress\<close> is \<open>settings.syncInProgress\<close>.
\<close>

record R2SyncSettings =
  baseFolder :: string
  bidirectionalSync :: bool
  enableBackups :: bool
  backupRetentionDays :: int
  lastSyncTime :: string
  settingsSyncInProgress :: bool

datatype notice =
    FailedToUpload string
  | Synced string
  | FailedToSync string
  | ErrorSyncing string
  | StartingSync nat
  | SyncedAll nat
  | SyncedCounts nat nat
  | BulkSyncError
  | DownloadedSummary nat nat
  | DownloadError
  | UploadedNew nat
  | NoNewFiles
  | MissingSyncError

text \<open>
  A \<open>SyncManager\<close> with what it acts on: its own fields (\<open>r2Service\<close> tells whether the
  client was constructed), the vault with its name and configuration directory, the
  bucket, and the notices shown so far.
\<close>

record world =
  syncInProgress :: bool
  r2Service :: bool
  settings :: R2SyncSettings
  vaultName :: string
  configDir :: string
  vault :: vault
  bucket :: bucket
  notices :: "notice list"

definition notify :: "notice \<Rightarrow> world \<Rightarrow> world" where
  "notify n w = w\<lparr>notices := notices w @ [n]\<rparr>"

definition setInProgress :: "bool \<Rightarrow> world \<Rightarrow> world" where
  "setInProgress b w =
     w\<lparr>syncInProgress := b, settings := (settings w)\<lparr>settingsSyncInProgress := b\<rparr>\<rparr>"

definition setLastSyncTime :: "string \<Rightarrow> world \<Rightarrow> world" where
  "setLastSyncTime now w = w\<lparr>settings := (settings w)\<lparr>lastSyncTime := now\<rparr>\<rparr>"

section \<open>R2ServiceObsidian: objects\<close>

definition uploadFile :: "env \<Rightarrow> string \<Rightarrow> string \<Rightarrow> string \<Rightarrow> world \<Rightarrow> bool \<times> world" where
  "uploadFile e key content contentType w =
     (if putFails e key then (False, notify (FailedToUpload key) w)
      else (True, w\<lparr>bucket := put (bucket w) key (content, contentType)\<rparr>))"

definition downloadFile :: "env \<Rightarrow> bucket \<Rightarrow> string \<Rightarrow> string option" where
  "downloadFile e b key =
     (if getFails e key then None
      else case map_of b key of None \<Rightarrow> None | Some (body, contentType) \<Rightarrow> Some body)"

definition listFiles :: "env \<Rightarrow> bucket \<Rightarrow> string \<Rightarrow> string list" where
  "listFiles e b prefix = (if listFails e prefix then [] else listKeys b prefix)"

definition deleteFile :: "env \<Rightarrow> bucket \<Rightarrow> string \<Rightarrow> bool \<times> bucket" where
  "deleteFile e b key = (if deleteFails e key then (False, b) else (True, deleteKey b key))"

section \<open>SyncManager: operations\<close>

definition toLowerCase :: "string \<Rightarrow> string" where
  "toLowerCase s =
     map (\<lambda>c. if 65 \<le> (of_char c :: nat) \<and> (of_char c :: nat) \<le> 90
               then char_of (of_char c + 32 :: nat) else c) s"

definition vaultRead :: "env \<Rightarrow> vault \<Rightarrow> TFile \<Rightarrow> string option" where
  "vaultRead e v file =
     (if readThrows e (path file) then None
      else case getAbstractFileByPath v (path file) of Some (File c) \<Rightarrow> Some c | _ \<Rightarrow> None)"

definition readFileContentWithType :: "env \<Rightarrow> vault \<Rightarrow> TFile \<Rightarrow> (string \<times> string) option" where
  "readFileContentWithType e v file =
     (let ext = toLowerCase (extension file) in
      if ext = ''md'' then map_option (\<lambda>c. (c, ''text/markdown'')) (vaultRead e v file)
      else if ext = ''txt'' then map_option (\<lambda>c. (c, ''text/plain'')) (vaultRead e v file)
      else map_option
        (\<lambda>c. (c, if ext = ''png'' then ''image/png''
                 else if ext = ''jpg'' \<or> ext = ''jpeg'' then ''image/jpeg''
                 else if ext = ''gif'' then ''image/gif''
                 else if ext = ''svg'' then ''image/svg+xml''
                 else if ext = ''webp'' then ''image/webp''
                 else if ext = ''pdf'' then ''application/pdf''
                 else ''application/octet-stream''))
        (vaultRead e v file))"

definition fileKey :: "world \<Rightarrow> TFile \<Rightarrow> string" where
  "fileKey w file = getFileKey (vaultName w) (baseFolder (settings w)) file"

definition localPathFromKey :: "world \<Rightarrow> string \<Rightarrow> string" where
  "localPathFromKey w key = getLocalPathFromKey (vaultName w) (baseFolder (settings w)) key"

definition effectiveBaseFolder :: "world \<Rightarrow> string" where
  "effectiveBaseFolder w =
     (if baseFolder (settings w) \<noteq> [] then baseFolder (settings w) else vaultName w)"

text \<open>
  \<open>syncFile\<close>. \<open>now\<close> is what \<open>new Date().toISOString()\<close> gives when the upload has
  succeeded. The \<open>catch\<close> branch is taken when reading the file rejects; \<open>uploadFile\<close>
  catches its own errors. The \<open>finally\<close> block resets both flags.
\<close>

definition syncFile :: "env \<Rightarrow> string \<Rightarrow> TFile \<Rightarrow> world \<Rightarrow> bool \<times> world" where
  "syncFile e now file w =
     (if syncInProgress w \<or> \<not> r2Service w then (False, w)
      else
        let w1 = setInProgress True w;
            (result, w2) =
              (case readFileContentWithType e (vault w1) file of
                 None \<Rightarrow> (False, notify (ErrorSyncing (name file)) w1)
               | Some (content, contentType) \<Rightarrow>
                   let key = fileKey w1 file;
                       (success, w') = uploadFile e key content contentType w1
                   in if success
                      then (True, setLastSyncTime now (notify (Synced (name file)) w'))
                      else (False, notify (FailedToSync (name file)) w'))
        in (result, setInProgress False w2))"

text \<open>
  One turn of the loop of \<open>downloadRemoteChanges\<close>, on the vault and the two counters.
  \<open>Inl\<close> is an exception leaving the loop, with the vault as it was then. The test
  \<open>if (remoteContent)\<close> is false for \<open>null\<close> and for the empty string.
\<close>

definition downloadOne ::
  "env \<Rightarrow> world \<Rightarrow> string \<Rightarrow> vault \<times> nat \<times> nat \<Rightarrow> vault + vault \<times> nat \<times> nat" where
  "downloadOne e w remoteKey st =
     (case st of (v, downloadedCount, updatedCount) \<Rightarrow>
      if startsWith remoteKey ''backups/'' then Inr st
      else
        let localPath = localPathFromKey w remoteKey in
        case getAbstractFileByPath v localPath of
          Some (File localStored) \<Rightarrow>
            (case downloadFile e (bucket w) remoteKey of
               None \<Rightarrow> Inr st
             | Some remoteContent \<Rightarrow>
                 if remoteContent = [] then Inr st
                 else (case vaultRead e v (tfile localPath) of
                         None \<Rightarrow> Inl v
                       | Some localContent \<Rightarrow>
                           if remoteContent \<noteq> localContent
                           then Inr (modify v localPath remoteContent, downloadedCount,
                                     updatedCount + 1)
                           else Inr st))
        | _ \<Rightarrow>
            (case downloadFile e (bucket w) remoteKey of
               None \<Rightarrow> Inr st
             | Some remoteContent \<Rightarrow>
                 if remoteContent = [] then Inr st
                 else
                   let pathParts = split CHR ''/'' localPath;
                       ensured =
                         (if length pathParts > 1
                          then (let dirPath = join CHR ''/'' (butlast pathParts) in
                                if getAbstractFileByPath v dirPath = None
                                then createFolder v dirPath else Some v)
                          else Some v)
                   in case ensured of
                        None \<Rightarrow> Inl v
                      | Some v1 \<Rightarrow>
                          (case create v1 localPath remoteContent of
                             None \<Rightarrow> Inl v1
                           | Some v2 \<Rightarrow> Inr (v2, downloadedCount + 1, updatedCount))))"

fun downloadLoop ::
  "env \<Rightarrow> world \<Rightarrow> string list \<Rightarrow> vault \<times> nat \<times> nat \<Rightarrow> vault + vault \<times> nat \<times> nat" where
  "downloadLoop e w [] st = Inr st"
| "downloadLoop e w (remoteKey # remoteFiles) st =
     (case downloadOne e w remoteKey st of
        Inl v \<Rightarrow> Inl v
      | Inr st' \<Rightarrow> downloadLoop e w remoteFiles st')"

definition downloadRemoteChanges :: "env \<Rightarrow> world \<Rightarrow> bool \<times> world" where
  "downloadRemoteChanges e w =
     (if \<not> r2Service w \<or> \<not> bidirectionalSync (settings w) then (False, w)
      else
        let remoteFiles = listFiles e (bucket w) (effectiveBaseFolder w) in
        case downloadLoop e w remoteFiles (vault w, 0, 0) of
          Inl v \<Rightarrow> (False, notify DownloadError (w\<lparr>vault := v\<rparr>))
        | Inr (v, downloadedCount, updatedCount) \<Rightarrow>
            (True,
             if downloadedCount + updatedCount > 0
             then notify (DownloadedSummary downloadedCount updatedCount) (w\<lparr>vault := v\<rparr>)
             else w\<lparr>vault := v\<rparr>))"

definition getFilesToSync :: "world \<Rightarrow> TFile list" where
  "getFilesToSync w =
     filter
       (\<lambda>file.
          if startsWith (path file) (configDir w @ ''/'') then False
          else if startsWith (path file) ''backups/'' then False
          else if baseFolder (settings w) = [] then True
          else if effectiveBaseFolder w = vaultName w then True
          else startsWith (path file) (effectiveBaseFolder w @ ''/'')
               \<or> path file = effectiveBaseFolder w)
       (getFiles (vault w))"

text \<open>
  The upload loop of \<open>syncAllFiles\<close> with its counter \<open>successCount\<close>. \<open>Inl\<close> is an
  exception leaving the loop (a read of the vault that rejects).
\<close>

fun uploadLoop :: "env \<Rightarrow> TFile list \<Rightarrow> world \<Rightarrow> nat \<Rightarrow> world + world \<times> nat" where
  "uploadLoop e [] w successCount = Inr (w, successCount)"
| "uploadLoop e (file # files) w successCount =
     (case readFileContentWithType e (vault w) file of
        None \<Rightarrow> Inl w
      | Some (content, contentType) \<Rightarrow>
          (case uploadFile e (fileKey w file) content contentType w of
             (success, w') \<Rightarrow>
               uploadLoop e files w' (if success then successCount + 1 else successCount)))"

text \<open>
  \<open>syncAllFiles\<close>. \<open>now\<close> is what \<open>new Date().toISOString()\<close> gives after the loop. The
  result of the download phase is not used.
\<close>

definition syncAllFiles :: "env \<Rightarrow> string \<Rightarrow> world \<Rightarrow> bool \<times> world" where
  "syncAllFiles e now w =
     (if syncInProgress w \<or> \<not> r2Service w then (False, w)
      else
        let w1 = setInProgress True w;
            w2 = (if bidirectionalSync (settings w1) then snd (downloadRemoteChanges e w1)
                  else w1);
            files = getFilesToSync w2;
            totalCount = length files;
            w3 = notify (StartingSync totalCount) w2;
            (result, w4) =
              (case uploadLoop e files w3 0 of
                 Inl w' \<Rightarrow> (False, notify BulkSyncError w')
               | Inr (w', successCount) \<Rightarrow>
                   (successCount > 0,
                    notify (if successCount = totalCount then SyncedAll totalCount
                            else SyncedCounts successCount totalCount)
                      (setLastSyncTime now w')))
        in (result, setInProgress False w4))"

text \<open>The loop of \<open>syncMissingFiles\<close>, which uploads the files whose key was not listed.\<close>

fun missingLoop :: "env \<Rightarrow> string list \<Rightarrow> TFile list \<Rightarrow> world \<Rightarrow> nat \<Rightarrow> world + world \<times> nat" where
  "missingLoop e remoteKeys [] w uploaded = Inr (w, uploaded)"
| "missingLoop e remoteKeys (file # files) w uploaded =
     (if fileKey w file \<notin> set remoteKeys
      then (case readFileContentWithType e (vault w) file of
              None \<Rightarrow> Inl w
            | Some (content, contentType) \<Rightarrow>
                (case uploadFile e (fileKey w file) content contentType w of
                   (ok, w') \<Rightarrow>
                     missingLoop e remoteKeys files w' (if ok then uploaded + 1 else uploaded)))
      else missingLoop e remoteKeys files w uploaded)"

definition syncMissingFiles :: "env \<Rightarrow> string \<Rightarrow> world \<Rightarrow> bool \<times> world" where
  "syncMissingFiles e now w =
     (if syncInProgress w \<or> \<not> r2Service w then (False, w)
      else
        let w1 = setInProgress True w;
            files = getFilesToSync w1;
            remoteKeys = listFiles e (bucket w1) (effectiveBaseFolder w1);
            (result, w2) =
              (case missingLoop e remoteKeys files w1 0 of
                 Inl w' \<Rightarrow> (False, notify MissingSyncError w')
               | Inr (w', uploaded) \<Rightarrow>
                   (uploaded > 0,
                    notify (if uploaded > 0 then UploadedNew uploaded else NoNewFiles)
                      (setLastSyncTime now w')))
        in (result, setInProgress False w2))"

text \<open>
  For the statements about \<open>syncAllFiles\<close>: the world when its upload phase starts (the
  flags set, the download phase done when bidirectional sync is on), and whether a file
  of the vault can be read.
\<close>

definition uploadPhaseWorld :: "env \<Rightarrow> world \<Rightarrow> world" where
  "uploadPhaseWorld e w =
     (let w1 = setInProgress True w in
      if bidirectionalSync (settings w1) then snd (downloadRemoteChanges e w1) else w1)"

definition readable :: "env \<Rightarrow> world \<Rightarrow> TFile \<Rightarrow> bool" where
  "readable e w file \<longleftrightarrow> readFileContentWithType e (vault w) file \<noteq> None"

section \<open>R2ServiceObsidian: backups\<close>

text \<open>
  The marker written by \<open>createBackup\<close> is
  \<open>JSON.stringify({ timestamp, folderPath, type: 'backup_marker' })\<close>; the environment's
  \<open>jsonStringify\<close> is that function of the two fields. \<open>jsonParse\<close> is \<open>JSON.parse\<close>
  followed by the reads of \<open>timestamp\<close> and \<open>folderPath\<close>, \<open>None\<close> when that throws; the
  two fields are taken to be strings, as \<open>createBackup\<close> writes them.
\<close>

definition createBackup :: "env \<Rightarrow> bucket \<Rightarrow> string \<Rightarrow> string \<Rightarrow> bool \<times> bucket" where
  "createBackup e b folder ts =
     (let backupKey = ''backups/'' @ ts @ ''/'' @ folder in
      if putFails e backupKey then (False, b)
      else (True,
            put b backupKey
              (jsonStringify e \<lparr>timestamp = ts, folderPath = folder\<rparr>, ''application/json'')))"

fun collectBackups :: "env \<Rightarrow> bucket \<Rightarrow> string list \<Rightarrow> backup list" where
  "collectBackups e b [] = []"
| "collectBackups e b (key # keys) =
     (if endsWith key ''backup_marker''
      then (case downloadFile e b key of
              None \<Rightarrow> []
            | Some content \<Rightarrow>
                if content = [] then []
                else (case jsonParse e content of None \<Rightarrow> [] | Some data \<Rightarrow> [data]))
      else [])
     @ collectBackups e b keys"

text \<open>
  \<open>backups.sort((a, b) => b.timestamp.localeCompare(a.timestamp))\<close>: the sort of
  JavaScript is stable, so it is an insertion sort with that comparison.
\<close>

fun insertBackup :: "env \<Rightarrow> backup \<Rightarrow> backup list \<Rightarrow> backup list" where
  "insertBackup e x [] = [x]"
| "insertBackup e x (y # ys) =
     (if localeCompare e (timestamp y) (timestamp x) \<le> 0 then x # y # ys
      else y # insertBackup e x ys)"

definition sortBackups :: "env \<Rightarrow> backup list \<Rightarrow> backup list" where
  "sortBackups e xs = foldr (insertBackup e) xs []"

definition listBackups :: "env \<Rightarrow> bucket \<Rightarrow> backup list" where
  "listBackups e b =
     (if listFails e ''backups/'' then []
      else sortBackups e (collectBackups e b (listKeys b ''backups/'')))"

fun deleteEach :: "env \<Rightarrow> string list \<Rightarrow> bucket \<Rightarrow> bucket" where
  "deleteEach e [] b = b"
| "deleteEach e (key # keys) b = deleteEach e keys (snd (deleteFile e b key))"

definition deleteBackup :: "env \<Rightarrow> bucket \<Rightarrow> string \<Rightarrow> bool \<times> bucket" where
  "deleteBackup e b ts =
     (if listFails e (''backups/'' @ ts @ ''/'') then (False, b)
      else (True, deleteEach e (listKeys b (''backups/'' @ ts @ ''/'')) b))"

text \<open>
  \<open>cleanupOldBackups\<close>. \<open>now\<close> is \<open>new Date()\<close> in milliseconds. The cutoff is
  \<open>setDate(getDate() - retentionDays)\<close>, taken as days of 24 hours; for 0 days it is
  \<open>now\<close>. A comparison with an invalid date is false.
\<close>

fun cleanupLoop :: "env \<Rightarrow> int \<Rightarrow> backup list \<Rightarrow> bucket \<Rightarrow> nat \<Rightarrow> nat \<times> bucket" where
  "cleanupLoop e cutoffDate [] b deletedCount = (deletedCount, b)"
| "cleanupLoop e cutoffDate (x # xs) b deletedCount =
     (case dateParse e (timestamp x) of
        None \<Rightarrow> cleanupLoop e cutoffDate xs b deletedCount
      | Some backupDate \<Rightarrow>
          if backupDate < cutoffDate
          then cleanupLoop e cutoffDate xs (snd (deleteBackup e b (timestamp x)))
                 (deletedCount + 1)
          else cleanupLoop e cutoffDate xs b deletedCount)"

definition cleanupOldBackups :: "env \<Rightarrow> int \<Rightarrow> bucket \<Rightarrow> int \<Rightarrow> nat \<times> bucket" where
  "cleanupOldBackups e now b retentionDays =
     (let backups = listBackups e b;
          cutoffDate = now - retentionDays * 86400000
      in cleanupLoop e cutoffDate backups b 0)"

section \<open>R2SyncPlugin: the debounced sync\<close>

text \<open>
  The plugin's \<open>syncTimeout\<close> and \<open>debounceId\<close>, with the timers of the event loop that
  are neither fired nor cleared. A timer holds what its callback captured: \<open>currentId\<close>
  (\<open>token\<close>) and \<open>file\<close> (\<open>target\<close>). \<open>syncCalls\<close> are the calls of
  \<open>this.syncManager.syncFile\<close>, the oldest first. Time is in milliseconds.
  \<open>debounceId\<close> is a natural number: a JavaScript number counts exactly up to \<open>2^53\<close>.
\<close>

record timer =
  handle :: nat
  due :: int
  token :: nat
  target :: TFile

record plugin =
  syncTimeout :: "nat option"
  debounceId :: nat
  syncDelay :: int
  pending :: "timer list"
  nextHandle :: nat
  syncCalls :: "TFile list"


text \<open>
  The delay of \<open>window.setTimeout(callback, this.settings.syncDelay * 1000)\<close>. The
  browser takes the delay as a signed 32-bit integer: the number is reduced modulo
  \<open>2^32\<close> into the range from \<open>-2^31\<close> to \<open>2^31 - 1\<close>, and a negative result counts
  as 0. So a product above 2147483647 does not give a longer delay: 3000000 seconds give
  the delay 0. \<open>syncDelay\<close> is an integer, as the settings tab stores it; its product
  with 1000 is exact as a JavaScript number up to \<open>2^53\<close> in absolute value.
\<close>

definition toInt32 :: "int \<Rightarrow> int" where
  "toInt32 n =
     (let m = n mod 4294967296 in if m \<ge> 2147483648 then m - 4294967296 else m)"

definition delayMs :: "plugin \<Rightarrow> int" where
  "delayMs p = max 0 (toInt32 (syncDelay p * 1000))"








section \<open>Example worlds\<close>

text \<open>
  An environment in which nothing fails. Its functions of the runtime are right on the
  markers of the examples: \<open>markerJson\<close> is \<open>JSON.stringify\<close> on fields that need no
  escaping, \<open>markerParse\<close> parses the two markers of the examples, \<open>isoDate\<close> is
  \<open>new Date\<close> on the one timestamp in ISO format (the other timestamp has \<open>-\<close> for \<open>:\<close>
  and \<open>.\<close>, as \<open>SyncManager.createBackup\<close> writes it) and \<open>compareCodeUnits\<close> orders
  strings by their code units.
\<close>

fun compareCodeUnits :: "string \<Rightarrow> string \<Rightarrow> int" where
  "compareCodeUnits [] [] = 0"
| "compareCodeUnits [] (y # ys) = - 1"
| "compareCodeUnits (x # xs) [] = 1"
| "compareCodeUnits (x # xs) (y # ys) =
     (if (of_char x :: nat) < of_char y then - 1
      else if (of_char y :: nat) < of_char x then 1
      else compareCodeUnits xs ys)"

definition markerJson :: "backup \<Rightarrow> string" where
  "markerJson b = ''{\"timestamp\":\"'' @ timestamp b @ ''\",\"folderPath\":\"''
        @ folderPath b @ ''\",\"type\":\"backup_marker\"}''"

definition oldMarker :: backup where
  "oldMarker = \<lparr>timestamp = ''2020-01-01T00:00:00.000Z'', folderPath = ''backup_marker''\<rparr>"

definition notesMarker :: backup where
  "notesMarker = \<lparr>timestamp = ''2026-01-01T00-00-00-000Z'', folderPath = ''Notes''\<rparr>"

definition markerParse :: "string \<Rightarrow> backup option" where
  "markerParse s =
     (if s = markerJson oldMarker then Some oldMarker
      else if s = markerJson notesMarker then Some notesMarker
      else None)"

definition isoDate :: "string \<Rightarrow> int option" where
  "isoDate s = (if s = ''2020-01-01T00:00:00.000Z'' then Some 1577836800000 else None)"

definition env_ok :: env where
  "env_ok = \<lparr>putFails = (\<lambda>k. False), getFails = (\<lambda>k. False), listFails = (\<lambda>p. False),
     deleteFails = (\<lambda>k. False), readThrows = (\<lambda>p. False),
     jsonStringify = markerJson, jsonParse = markerParse, dateParse = isoDate,
     localeCompare = compareCodeUnits\<rparr>"

definition env_putFails :: env where
  "env_putFails = env_ok\<lparr>putFails := (\<lambda>k. True)\<rparr>"

definition env_readThrows_b :: env where
  "env_readThrows_b = env_ok\<lparr>readThrows := (\<lambda>p. p = ''b.md'')\<rparr>"

definition env_putFails_b :: env where
  "env_putFails_b = env_ok\<lparr>putFails := (\<lambda>k. k = ''Vault/b.md'')\<rparr>"

definition settings0 :: R2SyncSettings where
  "settings0 = \<lparr>baseFolder = ''Vault'', bidirectionalSync = False, enableBackups = True,
     backupRetentionDays = 0, lastSyncTime = [], settingsSyncInProgress = False\<rparr>"

definition world0 :: world where
  "world0 = \<lparr>syncInProgress = False, r2Service = True, settings = settings0,
     vaultName = ''Vault'', configDir = ''.obsidian'',
     vault = [(''a.md'', File ''alpha''), (''b.md'', File ''beta'')],
     bucket = [], notices = []\<rparr>"

text \<open>
  A world for the download phase: bidirectional sync on, a local file \<open>a.md\<close>, and two
  remote objects with empty bodies, as \<open>syncFile\<close> uploads them for empty notes.
\<close>

definition worldD :: world where
  "worldD = world0\<lparr>settings := settings0\<lparr>bidirectionalSync := True\<rparr>,
     vault := [(''a.md'', File ''old'')],
     bucket := [(''Vault/a.md'', [], ''text/markdown''), (''Vault/new.md'', [], ''text/markdown'')]\<rparr>"

text \<open>The buckets after one \<open>createBackup\<close> on an empty bucket.\<close>

definition notesBucket :: bucket where
  "notesBucket = snd (createBackup env_ok [] ''Notes'' ''2026-01-01T00-00-00-000Z'')"

definition oldBucket :: bucket where
  "oldBucket = snd (createBackup env_ok [] ''backup_marker'' ''2020-01-01T00:00:00.000Z'')"





section \<open>Properties of the path and key mapping\<close>

lemma startsWith_append: "startsWith (p @ r) p"
  by (simp add: startsWith_def)

text \<open>
  C1, as the spec states it: under a non-empty base folder, mapping a path below the base
  folder to its key and back gives the path again. The code does not do that: both
  directions strip the prefix \<open>baseFolder + "/"\<close>, so the way back never restores it.
\<close>

theorem C1_roundtrip_counterexample:
  "''Vault'' \<noteq> [] \<and> startsWith ''Vault/x.md'' (''Vault'' @ ''/'') \<and>
   getLocalPathFromKey ''Vault'' ''Vault''
     (getFileKey ''Vault'' ''Vault''
        \<lparr>path = ''Vault/x.md'', name = ''x.md'', extension = ''md''\<rparr>) \<noteq> ''Vault/x.md''"
  by (simp add: getFileKey_def getLocalPathFromKey_def startsWith_def substring_def)

text \<open>
  C1, amended: for a non-empty base folder \<open>b\<close> and a path \<open>b + "/" + r\<close>, the key is \<open>r\<close>,
  and mapping the key back gives what \<open>getLocalPathFromKey\<close> makes of \<open>r\<close>, which is never
  the path itself and is \<open>r\<close> (the path without the base folder) whenever \<open>r\<close> is not \<open>b\<close>
  and does not start with \<open>b + "/"\<close>. In the other order the two functions are inverse
  on such keys: \<open>getFileKey\<close> of the file at \<open>getLocalPathFromKey (b + "/" + r)\<close> is
  \<open>b + "/" + r\<close>.
\<close>

theorem C1_roundtrip_strips_base:
  assumes "b \<noteq> []" and "path f = b @ ''/'' @ r"
  shows "getFileKey v b f = r \<and>
         getLocalPathFromKey v b (getFileKey v b f) = getLocalPathFromKey v b r \<and>
         getLocalPathFromKey v b (getFileKey v b f) \<noteq> path f \<and>
         (r \<noteq> b \<and> \<not> startsWith r (b @ ''/'') \<longrightarrow>
            getLocalPathFromKey v b (getFileKey v b f) = r \<and>
            (\<forall>g::TFile. path g = getLocalPathFromKey v b (b @ ''/'' @ r) \<longrightarrow>
                 getFileKey v b g = b @ ''/'' @ r))"
proof -
  have pre: "startsWith (path f) (b @ ''/'')"
    using assms(2) startsWith_append [of "b @ ''/''" r] by simp
  have key: "getFileKey v b f = r"
    using assms pre by (simp add: getFileKey_def substring_def)
  have len: "length (getLocalPathFromKey v b r) \<le> length r"
    by (simp add: getLocalPathFromKey_def substring_def Let_def)
  have "length r < length (path f)"
    using assms(2) by simp
  with len have neq: "getLocalPathFromKey v b (getFileKey v b f) \<noteq> path f"
    by (auto simp: key)
  have both: "getLocalPathFromKey v b (getFileKey v b f) = r \<and>
            (\<forall>g::TFile. path g = getLocalPathFromKey v b (b @ ''/'' @ r) \<longrightarrow>
                 getFileKey v b g = b @ ''/'' @ r)"
    if side: "r \<noteq> b \<and> \<not> startsWith r (b @ ''/'')"
  proof (intro conjI allI impI)
    show "getLocalPathFromKey v b (getFileKey v b f) = r"
      using side assms(1) by (simp add: key getLocalPathFromKey_def)
  next
    fix g :: TFile
    assume g: "path g = getLocalPathFromKey v b (b @ ''/'' @ r)"
    have "getLocalPathFromKey v b (b @ ''/'' @ r) = r"
      using assms(1) startsWith_append [of "b @ ''/''" r]
      by (simp add: getLocalPathFromKey_def substring_def)
    with g have "path g = r" by simp
    with side assms(1) show "getFileKey v b g = b @ ''/'' @ r"
      by (simp add: getFileKey_def)
  qed
  from key neq both show ?thesis by blast
qed

theorem C1_roundtrip_strips_base_witness:
  "getFileKey ''Vault'' ''Vault'' \<lparr>path = ''Vault/x.md'', name = ''x.md'', extension = ''md''\<rparr>
     = ''x.md'' \<and>
   getLocalPathFromKey ''Vault'' ''Vault''
     (getFileKey ''Vault'' ''Vault''
        \<lparr>path = ''Vault/x.md'', name = ''x.md'', extension = ''md''\<rparr>) = ''x.md'' \<and>
   getFileKey ''Vault'' ''Vault'' \<lparr>path = ''x.md'', name = ''x.md'', extension = ''md''\<rparr>
     = ''Vault/x.md''"
proof -
  let ?f = "\<lparr>path = ''Vault/x.md'', name = ''x.md'', extension = ''md''\<rparr>"
  let ?g = "\<lparr>path = ''x.md'', name = ''x.md'', extension = ''md''\<rparr>"
  have b: "''Vault'' \<noteq> []" by simp
  have p: "path ?f = ''Vault'' @ ''/'' @ ''x.md''" by simp
  have side: "''x.md'' \<noteq> ''Vault'' \<and> \<not> startsWith ''x.md'' (''Vault'' @ ''/'')"
    by (simp add: startsWith_def)
  have g: "path ?g = getLocalPathFromKey ''Vault'' ''Vault'' (''Vault'' @ ''/'' @ ''x.md'')"
    by (simp add: getLocalPathFromKey_def startsWith_def substring_def)
  note inst = C1_roundtrip_strips_base [OF b p, of "''Vault''"]
  from inst have k: "getFileKey ''Vault'' ''Vault'' ?f = ''x.md''"
    by (rule conjunct1)
  from inst side have r: "getLocalPathFromKey ''Vault'' ''Vault'' (getFileKey ''Vault'' ''Vault'' ?f)
      = ''x.md''"
    by blast
  from inst side g have "getFileKey ''Vault'' ''Vault'' ?g = ''Vault'' @ ''/'' @ ''x.md''"
    by blast
  then have "getFileKey ''Vault'' ''Vault'' ?g = ''Vault/x.md''" by simp
  with k r show ?thesis by blast
qed

text \<open>
  C6, as the spec states it: with an empty configured base folder, the key of a path is
  the path. In the code an empty \<open>settings.baseFolder\<close> falls back to the vault's name,
  so the key is the path below the vault's name.
\<close>

theorem C6_empty_base_counterexample:
  "getFileKey ''Vault'' [] \<lparr>path = ''notes/a.md'', name = ''a.md'', extension = ''md''\<rparr>
     \<noteq> ''notes/a.md''"
  by (simp add: getFileKey_def startsWith_def)

text \<open>
  C6, amended: the base folder in force is the configured one or, when that is empty, the
  vault's name. When the base folder in force is empty (both are), \<open>getFileKey\<close> gives
  the path of every file, and \<open>getLocalPathFromKey\<close> gives every key that does not start
  with \<open>"/"\<close> (from one that does, the leading \<open>"/"\<close> is removed). When the configured
  base folder is empty and the vault's name is not, both functions behave as with the
  vault's name configured.
\<close>

theorem C6_empty_base_identity:
  "getFileKey [] [] f = path f \<and>
   (\<not> startsWith k ''/'' \<longrightarrow> getLocalPathFromKey [] [] k = k) \<and>
   (startsWith k ''/'' \<longrightarrow> getLocalPathFromKey [] [] k = substring k 1) \<and>
   getFileKey v [] f = getFileKey v v f \<and>
   getLocalPathFromKey v [] k = getLocalPathFromKey v v k"
  by (auto simp: getFileKey_def getLocalPathFromKey_def)

theorem C6_empty_base_identity_witness:
  "getLocalPathFromKey [] [] ''notes/a.md'' = ''notes/a.md'' \<and>
   getLocalPathFromKey [] [] ''/a.md'' = ''a.md''"
proof -
  let ?f = "\<lparr>path = ''notes/a.md'', name = ''a.md'', extension = ''md''\<rparr>"
  have n: "\<not> startsWith ''notes/a.md'' ''/''" by (simp add: startsWith_def)
  have y: "startsWith ''/a.md'' ''/''" by (simp add: startsWith_def)
  from C6_empty_base_identity [of ?f "''notes/a.md''" "''Vault''"] n
  have one: "getLocalPathFromKey [] [] ''notes/a.md'' = ''notes/a.md''" by blast
  from C6_empty_base_identity [of ?f "''/a.md''" "''Vault''"] y
  have "getLocalPathFromKey [] [] ''/a.md'' = substring ''/a.md'' 1" by blast
  then have "getLocalPathFromKey [] [] ''/a.md'' = ''a.md''" by (simp add: substring_def)
  with one show ?thesis by blast
qed

section \<open>Properties of the sync operations\<close>

lemma uploadFile_frame:
  "uploadFile e k c t w = (ok, w') \<Longrightarrow>
     settings w' = settings w \<and> vault w' = vault w \<and> vaultName w' = vaultName w"
  by (auto simp: uploadFile_def notify_def split: if_splits)

lemma uploadFile_ok:
  "uploadFile e k c t w = (ok, w') \<Longrightarrow> ok = (\<not> putFails e k)"
  by (auto simp: uploadFile_def split: if_splits)

lemma fileKey_cong:
  "settings w' = settings w \<Longrightarrow> vaultName w' = vaultName w \<Longrightarrow> fileKey w' = fileKey w"
  by (rule ext) (simp add: fileKey_def)

lemma readable_frame:
  "vault w' = vault w \<Longrightarrow> readable e w' f = readable e w f"
  by (simp add: readable_def)

lemma uploadLoop_Inr:
  "uploadLoop e files w n = Inr (w', k) \<Longrightarrow>
     settings w' = settings w \<and> vault w' = vault w \<and> vaultName w' = vaultName w \<and>
     k = n + length (filter (\<lambda>f. \<not> putFails e (fileKey w f)) files) \<and>
     (\<forall>f\<in>set files. readable e w f)"
proof (induction files arbitrary: w n)
  case Nil
  then show ?case by simp
next
  case (Cons f files)
  from Cons.prems obtain c t where rd: "readFileContentWithType e (vault w) f = Some (c, t)"
    by (cases "readFileContentWithType e (vault w) f") auto
  obtain ok w1 where up: "uploadFile e (fileKey w f) c t w = (ok, w1)"
    by (cases "uploadFile e (fileKey w f) c t w")
  have fr: "settings w1 = settings w" "vault w1 = vault w" "vaultName w1 = vaultName w"
    using uploadFile_frame [OF up] by simp_all
  have ok: "ok = (\<not> putFails e (fileKey w f))"
    by (rule uploadFile_ok [OF up])
  have key: "fileKey w1 = fileKey w"
    by (rule fileKey_cong [OF fr(1) fr(3)])
  from Cons.prems rd up
  have rest: "uploadLoop e files w1 (if ok then n + 1 else n) = Inr (w', k)"
    by simp
  from Cons.IH [OF rest]
  have ih: "settings w' = settings w1" "vault w' = vault w1" "vaultName w' = vaultName w1"
    "k = (if ok then n + 1 else n) + length (filter (\<lambda>f. \<not> putFails e (fileKey w1 f)) files)"
    "\<forall>g\<in>set files. readable e w1 g"
    by simp_all
  have r: "readable e w f" using rd by (simp add: readable_def)
  have rs: "\<forall>g\<in>set files. readable e w g"
    using ih(5) readable_frame [OF fr(2)] by simp
  have cnt: "k = n + length (filter (\<lambda>f. \<not> putFails e (fileKey w f)) (f # files))"
    unfolding ih(4) key ok by simp
  show ?case
    using ih(1-3) fr cnt r rs by simp
qed

lemma uploadLoop_Inl:
  "uploadLoop e files w n = Inl w' \<Longrightarrow>
     settings w' = settings w \<and> (\<exists>f\<in>set files. \<not> readable e w f)"
proof (induction files arbitrary: w n)
  case Nil
  then show ?case by simp
next
  case (Cons f files)
  show ?case
  proof (cases "readFileContentWithType e (vault w) f")
    case None
    with Cons.prems have "w' = w" by simp
    moreover from None have "\<not> readable e w f" by (simp add: readable_def)
    ultimately show ?thesis by simp
  next
    case (Some ct)
    obtain c t where ct: "ct = (c, t)" by (cases ct)
    obtain ok w1 where up: "uploadFile e (fileKey w f) c t w = (ok, w1)"
      by (cases "uploadFile e (fileKey w f) c t w")
    have fr: "settings w1 = settings w" "vault w1 = vault w" "vaultName w1 = vaultName w"
      using uploadFile_frame [OF up] by simp_all
    from Cons.prems Some ct up
    have rest: "uploadLoop e files w1 (if ok then n + 1 else n) = Inl w'"
      by simp
    from Cons.IH [OF rest]
    have ih: "settings w' = settings w1" "\<exists>g\<in>set files. \<not> readable e w1 g"
      by simp_all
    from ih(2) readable_frame [OF fr(2)] have "\<exists>g\<in>set files. \<not> readable e w g"
      by simp
    with ih(1) fr(1) show ?thesis by simp
  qed
qed

lemma setInProgress_simps [simp]:
  "lastSyncTime (settings (setInProgress b w)) = lastSyncTime (settings w)"
  "syncInProgress (setInProgress b w) = b"
  "vault (setInProgress b w) = vault w"
  "bucket (setInProgress b w) = bucket w"
  "notices (setInProgress b w) = notices w"
  "vaultName (setInProgress b w) = vaultName w"
  "r2Service (setInProgress b w) = r2Service w"
  "baseFolder (settings (setInProgress b w)) = baseFolder (settings w)"
  "bidirectionalSync (settings (setInProgress b w)) = bidirectionalSync (settings w)"
  by (simp_all add: setInProgress_def)

lemma notify_simps [simp]:
  "settings (notify n w) = settings w"
  "vault (notify n w) = vault w"
  "bucket (notify n w) = bucket w"
  "vaultName (notify n w) = vaultName w"
  "notices (notify n w) = notices w @ [n]"
  by (simp_all add: notify_def)

lemma setLastSyncTime_simps [simp]:
  "lastSyncTime (settings (setLastSyncTime now w)) = now"
  "notices (setLastSyncTime now w) = notices w"
  "bucket (setLastSyncTime now w) = bucket w"
  "vault (setLastSyncTime now w) = vault w"
  by (simp_all add: setLastSyncTime_def)

lemma downloadRemoteChanges_frame:
  "settings (snd (downloadRemoteChanges e w)) = settings w \<and>
   vaultName (snd (downloadRemoteChanges e w)) = vaultName w \<and>
   bucket (snd (downloadRemoteChanges e w)) = bucket w"
proof (cases "\<not> r2Service w \<or> \<not> bidirectionalSync (settings w)")
  case True
  then show ?thesis by (simp add: downloadRemoteChanges_def)
next
  case False
  show ?thesis
  proof (cases "downloadLoop e w (listFiles e (bucket w) (effectiveBaseFolder w)) (vault w, 0, 0)")
    case (Inl v)
    with False show ?thesis by (simp add: downloadRemoteChanges_def)
  next
    case (Inr st)
    obtain v d u where "st = (v, d, u)" by (cases st)
    with Inr False show ?thesis by (simp add: downloadRemoteChanges_def)
  qed
qed

lemma uploadPhaseWorld_frame:
  "lastSyncTime (settings (uploadPhaseWorld e w)) = lastSyncTime (settings w) \<and>
   baseFolder (settings (uploadPhaseWorld e w)) = baseFolder (settings w) \<and>
   vaultName (uploadPhaseWorld e w) = vaultName w"
  using downloadRemoteChanges_frame [of e "setInProgress True w"]
  by (simp add: uploadPhaseWorld_def Let_def)

lemma syncAllFiles_unfold:
  "\<not> syncInProgress w \<Longrightarrow> r2Service w \<Longrightarrow>
   syncAllFiles e now w =
     (let w2 = uploadPhaseWorld e w;
          files = getFilesToSync w2;
          totalCount = length files
      in case uploadLoop e files (notify (StartingSync totalCount) w2) 0 of
           Inl w' \<Rightarrow> (False, setInProgress False (notify BulkSyncError w'))
         | Inr (w', successCount) \<Rightarrow>
             (successCount > 0,
              setInProgress False
                (notify (if successCount = totalCount then SyncedAll totalCount
                         else SyncedCounts successCount totalCount)
                   (setLastSyncTime now w'))))"
  by (simp add: syncAllFiles_def uploadPhaseWorld_def Let_def split: sum.splits prod.splits)



lemma syncAllFiles_rejected:
  "syncInProgress w \<or> \<not> r2Service w \<Longrightarrow> syncAllFiles e now w = (False, w)"
  by (simp add: syncAllFiles_def)

lemma syncFile_lastSyncTime:
  "lastSyncTime (settings (snd (syncFile e now file w))) =
     (if fst (syncFile e now file w) then now else lastSyncTime (settings w))"
proof (cases "syncInProgress w \<or> \<not> r2Service w")
  case True
  then show ?thesis by (simp add: syncFile_def)
next
  case False
  show ?thesis
  proof (cases "readFileContentWithType e (vault w) file")
    case None
    with False show ?thesis by (simp add: syncFile_def Let_def)
  next
    case (Some ct)
    obtain c t where ct: "ct = (c, t)" by (cases ct)
    show ?thesis
      using False Some ct
      by (simp add: syncFile_def Let_def uploadFile_def fileKey_def setLastSyncTime_def notify_def
            setInProgress_def)
  qed
qed

lemma syncAllFiles_completes_iff:
  assumes "\<not> syncInProgress w" "r2Service w"
  shows "(\<exists>w' k. uploadLoop e (getFilesToSync (uploadPhaseWorld e w))
                   (notify (StartingSync (length (getFilesToSync (uploadPhaseWorld e w))))
                      (uploadPhaseWorld e w)) 0 = Inr (w', k) \<and>
                 settings w' = settings (uploadPhaseWorld e w) \<and>
                 k = length (filter (\<lambda>f. \<not> putFails e (fileKey w f))
                               (getFilesToSync (uploadPhaseWorld e w)))) \<and>
         (\<forall>f\<in>set (getFilesToSync (uploadPhaseWorld e w)). readable e (uploadPhaseWorld e w) f)
         \<or>
         (\<exists>w'. uploadLoop e (getFilesToSync (uploadPhaseWorld e w))
                   (notify (StartingSync (length (getFilesToSync (uploadPhaseWorld e w))))
                      (uploadPhaseWorld e w)) 0 = Inl w' \<and>
                 settings w' = settings (uploadPhaseWorld e w)) \<and>
         \<not> (\<forall>f\<in>set (getFilesToSync (uploadPhaseWorld e w)). readable e (uploadPhaseWorld e w) f)"
proof -
  define w2 where "w2 = uploadPhaseWorld e w"
  define files where "files = getFilesToSync w2"
  let ?w3 = "notify (StartingSync (length files)) w2"
  have k3: "fileKey ?w3 = fileKey w"
    using uploadPhaseWorld_frame [of e w] by (intro ext) (simp add: fileKey_def w2_def)
  have r3: "readable e ?w3 = readable e w2"
    by (intro ext) (simp add: readable_def)
  have "(\<exists>w' k. uploadLoop e files ?w3 0 = Inr (w', k) \<and> settings w' = settings w2 \<and>
            k = length (filter (\<lambda>f. \<not> putFails e (fileKey w f)) files)) \<and>
         (\<forall>f\<in>set files. readable e w2 f)
         \<or> (\<exists>w'. uploadLoop e files ?w3 0 = Inl w' \<and> settings w' = settings w2) \<and>
         \<not> (\<forall>f\<in>set files. readable e w2 f)"
  proof (cases "uploadLoop e files ?w3 0")
    case (Inl w')
    from uploadLoop_Inl [OF Inl]
    have "\<exists>f\<in>set files. \<not> readable e w2 f" "settings w' = settings w2"
      by (simp_all add: r3)
    with Inl show ?thesis by blast
  next
    case (Inr p)
    obtain w' k where p: "p = (w', k)" by (cases p)
    from uploadLoop_Inr [OF Inr [unfolded p]]
    have "k = length (filter (\<lambda>f. \<not> putFails e (fileKey w f)) files)"
      "\<forall>f\<in>set files. readable e w2 f" "settings w' = settings w2"
      by (simp_all add: k3 r3)
    with Inr p show ?thesis by blast
  qed
  then show ?thesis unfolding files_def w2_def .
qed


lemma missingLoop_Inr:
  "missingLoop e rk files w n = Inr (w', k) \<Longrightarrow>
     settings w' = settings w \<and>
     (\<forall>f\<in>set files. fileKey w f \<notin> set rk \<longrightarrow> readable e w f)"
proof (induction files arbitrary: w n)
  case Nil
  then show ?case by simp
next
  case (Cons f files)
  show ?case
  proof (cases "fileKey w f \<notin> set rk")
    case False
    with Cons.prems have "missingLoop e rk files w n = Inr (w', k)" by simp
    from Cons.IH [OF this] False show ?thesis by simp
  next
    case True
    with Cons.prems obtain c t where rd: "readFileContentWithType e (vault w) f = Some (c, t)"
      by (cases "readFileContentWithType e (vault w) f") auto
    obtain ok w1 where up: "uploadFile e (fileKey w f) c t w = (ok, w1)"
      by (cases "uploadFile e (fileKey w f) c t w")
    have fr: "settings w1 = settings w" "vault w1 = vault w" "vaultName w1 = vaultName w"
      using uploadFile_frame [OF up] by simp_all
    have key: "fileKey w1 = fileKey w"
      by (rule fileKey_cong [OF fr(1) fr(3)])
    from Cons.prems True rd up
    have rest: "missingLoop e rk files w1 (if ok then n + 1 else n) = Inr (w', k)"
      by simp
    from Cons.IH [OF rest]
    have ih: "settings w' = settings w1"
      "\<forall>g\<in>set files. fileKey w1 g \<notin> set rk \<longrightarrow> readable e w1 g"
      by simp_all
    have r: "readable e w f" using rd by (simp add: readable_def)
    have rs: "\<forall>g\<in>set files. fileKey w g \<notin> set rk \<longrightarrow> readable e w g"
      using ih(2) readable_frame [OF fr(2)] key by simp
    show ?thesis
      using ih(1) fr(1) r rs by simp
  qed
qed

lemma missingLoop_Inl:
  "missingLoop e rk files w n = Inl w' \<Longrightarrow>
     settings w' = settings w \<and>
     (\<exists>f\<in>set files. fileKey w f \<notin> set rk \<and> \<not> readable e w f)"
proof (induction files arbitrary: w n)
  case Nil
  then show ?case by simp
next
  case (Cons f files)
  show ?case
  proof (cases "fileKey w f \<notin> set rk")
    case False
    with Cons.prems have "missingLoop e rk files w n = Inl w'" by simp
    from Cons.IH [OF this] show ?thesis by auto
  next
    case True
    show ?thesis
    proof (cases "readFileContentWithType e (vault w) f")
      case None
      with Cons.prems True have "w' = w" by simp
      moreover from None have "\<not> readable e w f" by (simp add: readable_def)
      ultimately show ?thesis using True by simp
    next
      case (Some ct)
      obtain c t where ct: "ct = (c, t)" by (cases ct)
      obtain ok w1 where up: "uploadFile e (fileKey w f) c t w = (ok, w1)"
        by (cases "uploadFile e (fileKey w f) c t w")
      have fr: "settings w1 = settings w" "vault w1 = vault w" "vaultName w1 = vaultName w"
        using uploadFile_frame [OF up] by simp_all
      have key: "fileKey w1 = fileKey w"
        by (rule fileKey_cong [OF fr(1) fr(3)])
      from Cons.prems True Some ct up
      have rest: "missingLoop e rk files w1 (if ok then n + 1 else n) = Inl w'"
        by simp
      from Cons.IH [OF rest]
      have ih: "settings w' = settings w1"
        "\<exists>g\<in>set files. fileKey w1 g \<notin> set rk \<and> \<not> readable e w1 g"
        by simp_all
      from ih(2) readable_frame [OF fr(2)] key
      have "\<exists>g\<in>set files. fileKey w g \<notin> set rk \<and> \<not> readable e w g"
        by simp
      with ih(1) fr(1) show ?thesis by auto
    qed
  qed
qed

lemma syncFile_result:
  "fst (syncFile e now file w) \<longleftrightarrow>
     \<not> syncInProgress w \<and> r2Service w \<and> readable e w file \<and> \<not> putFails e (fileKey w file)"
proof (cases "syncInProgress w \<or> \<not> r2Service w")
  case True
  then show ?thesis by (auto simp: syncFile_def)
next
  case False
  show ?thesis
  proof (cases "readFileContentWithType e (vault w) file")
    case None
    with False show ?thesis by (simp add: syncFile_def Let_def readable_def)
  next
    case (Some ct)
    obtain c t where ct: "ct = (c, t)" by (cases ct)
    show ?thesis
      using False Some ct
      by (simp add: syncFile_def Let_def uploadFile_def fileKey_def readable_def setInProgress_def)
  qed
qed

lemma syncAllFiles_lastSyncTime:
  "lastSyncTime (settings (snd (syncAllFiles e now w))) =
     (if \<not> syncInProgress w \<and> r2Service w \<and>
         (\<forall>f\<in>set (getFilesToSync (uploadPhaseWorld e w)). readable e (uploadPhaseWorld e w) f)
      then now else lastSyncTime (settings w))"
proof (cases "syncInProgress w \<or> \<not> r2Service w")
  case True
  then show ?thesis by (auto simp: syncAllFiles_def)
next
  case False
  then have g: "\<not> syncInProgress w" "r2Service w" by simp_all
  note unf = syncAllFiles_unfold [OF g, of e now, unfolded Let_def]
  from syncAllFiles_completes_iff [OF g, of e] show ?thesis
  proof (elim disjE conjE exE)
    fix w' k
    assume "uploadLoop e (getFilesToSync (uploadPhaseWorld e w))
              (notify (StartingSync (length (getFilesToSync (uploadPhaseWorld e w))))
                 (uploadPhaseWorld e w)) 0 = Inr (w', k)"
      and "\<forall>f\<in>set (getFilesToSync (uploadPhaseWorld e w)). readable e (uploadPhaseWorld e w) f"
    then show ?thesis using g by (simp add: unf)
  next
    fix w'
    assume "uploadLoop e (getFilesToSync (uploadPhaseWorld e w))
              (notify (StartingSync (length (getFilesToSync (uploadPhaseWorld e w))))
                 (uploadPhaseWorld e w)) 0 = Inl w'"
      and "settings w' = settings (uploadPhaseWorld e w)"
      and "\<not> (\<forall>f\<in>set (getFilesToSync (uploadPhaseWorld e w)). readable e (uploadPhaseWorld e w) f)"
    then show ?thesis using g uploadPhaseWorld_frame [of e w] by (auto simp: unf)
  qed
qed


lemma syncAllFiles_true_iff:
  "fst (syncAllFiles e now w) \<longleftrightarrow>
     \<not> syncInProgress w \<and> r2Service w \<and>
     (\<forall>f\<in>set (getFilesToSync (uploadPhaseWorld e w)). readable e (uploadPhaseWorld e w) f) \<and>
     (\<exists>f\<in>set (getFilesToSync (uploadPhaseWorld e w)). \<not> putFails e (fileKey w f))"
proof (cases "syncInProgress w \<or> \<not> r2Service w")
  case True
  then show ?thesis by (auto simp: syncAllFiles_def)
next
  case False
  then have g: "\<not> syncInProgress w" "r2Service w" by simp_all
  note unf = syncAllFiles_unfold [OF g, of e now, unfolded Let_def]
  from syncAllFiles_completes_iff [OF g, of e] show ?thesis
  proof (elim disjE conjE exE)
    fix w' k
    assume "uploadLoop e (getFilesToSync (uploadPhaseWorld e w))
              (notify (StartingSync (length (getFilesToSync (uploadPhaseWorld e w))))
                 (uploadPhaseWorld e w)) 0 = Inr (w', k)"
      and "k = length (filter (\<lambda>f. \<not> putFails e (fileKey w f))
                         (getFilesToSync (uploadPhaseWorld e w)))"
      and "\<forall>f\<in>set (getFilesToSync (uploadPhaseWorld e w)). readable e (uploadPhaseWorld e w) f"
    then show ?thesis using g by (auto simp: unf filter_empty_conv)
  next
    fix w'
    assume "uploadLoop e (getFilesToSync (uploadPhaseWorld e w))
              (notify (StartingSync (length (getFilesToSync (uploadPhaseWorld e w))))
                 (uploadPhaseWorld e w)) 0 = Inl w'"
      and "\<not> (\<forall>f\<in>set (getFilesToSync (uploadPhaseWorld e w)). readable e (uploadPhaseWorld e w) f)"
    then show ?thesis using g by (auto simp: unf)
  qed
qed

lemma syncAllFiles_last_notice:
  assumes "\<not> syncInProgress w" "r2Service w"
    and "\<forall>f\<in>set (getFilesToSync (uploadPhaseWorld e w)). readable e (uploadPhaseWorld e w) f"
  shows "last (notices (snd (syncAllFiles e now w))) =
     (if length (filter (\<lambda>f. \<not> putFails e (fileKey w f)) (getFilesToSync (uploadPhaseWorld e w)))
           = length (getFilesToSync (uploadPhaseWorld e w))
      then SyncedAll (length (getFilesToSync (uploadPhaseWorld e w)))
      else SyncedCounts
             (length (filter (\<lambda>f. \<not> putFails e (fileKey w f))
                        (getFilesToSync (uploadPhaseWorld e w))))
             (length (getFilesToSync (uploadPhaseWorld e w))))"
proof -
  note unf = syncAllFiles_unfold [OF assms(1,2), of e now, unfolded Let_def]
  from syncAllFiles_completes_iff [OF assms(1,2), of e] assms(3)
  obtain w' k where
    "uploadLoop e (getFilesToSync (uploadPhaseWorld e w))
              (notify (StartingSync (length (getFilesToSync (uploadPhaseWorld e w))))
                 (uploadPhaseWorld e w)) 0 = Inr (w', k)"
    "k = length (filter (\<lambda>f. \<not> putFails e (fileKey w f))
                         (getFilesToSync (uploadPhaseWorld e w)))"
    by blast
  then show ?thesis by (simp add: unf)
qed

lemma syncMissingFiles_lastSyncTime:
  "lastSyncTime (settings (snd (syncMissingFiles e now w))) =
     (if \<not> syncInProgress w \<and> r2Service w \<and>
         (\<forall>f\<in>set (getFilesToSync w).
            fileKey w f \<notin> set (listFiles e (bucket w) (effectiveBaseFolder w)) \<longrightarrow> readable e w f)
      then now else lastSyncTime (settings w))"
proof (cases "syncInProgress w \<or> \<not> r2Service w")
  case True
  then show ?thesis by (auto simp: syncMissingFiles_def)
next
  case False
  define w1 where "w1 = setInProgress True w"
  define rk where "rk = listFiles e (bucket w) (effectiveBaseFolder w)"
  have f1: "getFilesToSync w1 = getFilesToSync w"
    by (simp add: w1_def getFilesToSync_def effectiveBaseFolder_def setInProgress_def)
  have b1: "listFiles e (bucket w1) (effectiveBaseFolder w1) = rk"
    by (simp add: w1_def rk_def effectiveBaseFolder_def setInProgress_def)
  have k1: "fileKey w1 = fileKey w"
    by (intro ext) (simp add: w1_def fileKey_def)
  have r1: "readable e w1 = readable e w"
    by (intro ext) (simp add: w1_def readable_def)
  have l1: "lastSyncTime (settings w1) = lastSyncTime (settings w)"
    by (simp add: w1_def)
  show ?thesis
  proof (cases "missingLoop e rk (getFilesToSync w) w1 0")
    case (Inl w')
    from missingLoop_Inl [OF Inl]
    have "settings w' = settings w1"
      "\<exists>f\<in>set (getFilesToSync w). fileKey w f \<notin> set rk \<and> \<not> readable e w f"
      by (simp_all add: k1 r1)
    with Inl False l1 show ?thesis
      unfolding rk_def [symmetric]
      by (auto simp: syncMissingFiles_def Let_def w1_def [symmetric] f1 b1)
  next
    case (Inr q)
    obtain w' k where q: "q = (w', k)" by (cases q)
    from missingLoop_Inr [OF Inr [unfolded q]]
    have "\<forall>f\<in>set (getFilesToSync w). fileKey w f \<notin> set rk \<longrightarrow> readable e w f"
      by (simp_all add: k1 r1)
    with Inr q False show ?thesis
      unfolding rk_def [symmetric]
      by (auto simp: syncMissingFiles_def Let_def w1_def [symmetric] f1 b1)
  qed
qed


text \<open>
  C3, as the spec states it: a run of \<open>syncAllFiles\<close> that does not succeed leaves
  \<open>lastSyncTime\<close> unchanged. Here every upload fails, \<open>syncAllFiles\<close> returns false, the
  bucket is as before, and \<open>lastSyncTime\<close> is set.
\<close>

theorem C3_lastSyncTime_counterexample:
  "fst (syncAllFiles env_putFails ''2026-01-01T00:00:00.000Z'' world0) = False \<and>
   bucket (snd (syncAllFiles env_putFails ''2026-01-01T00:00:00.000Z'' world0)) = bucket world0 \<and>
   lastSyncTime (settings (snd (syncAllFiles env_putFails ''2026-01-01T00:00:00.000Z'' world0)))
     = ''2026-01-01T00:00:00.000Z'' \<and>
   lastSyncTime (settings world0) = []"
  by (simp add: syncAllFiles_def world0_def settings0_def env_putFails_def env_ok_def
        setInProgress_def notify_def getFilesToSync_def effectiveBaseFolder_def startsWith_def
        tfile_def fileName_def fileExtension_def readFileContentWithType_def toLowerCase_def
        vaultRead_def getAbstractFileByPath_def uploadFile_def fileKey_def getFileKey_def
        setLastSyncTime_def Let_def)

text \<open>
  C3, amended. \<open>syncFile\<close> returns true exactly when it is not rejected (no pass in
  flight, a client configured), the file is read and the upload succeeds, and it sets
  \<open>lastSyncTime\<close> exactly then. \<open>syncAllFiles\<close> and \<open>syncMissingFiles\<close> set
  \<open>lastSyncTime\<close> exactly when they are not rejected and no read of a file they upload
  throws, whatever the number of uploads that succeed; a rejected run and a run that ends
  in a thrown error leave \<open>lastSyncTime\<close> unchanged.
\<close>

theorem C3_lastSyncTime_updates:
  "(fst (syncFile e now file w) \<longleftrightarrow>
      \<not> syncInProgress w \<and> r2Service w \<and> readable e w file \<and> \<not> putFails e (fileKey w file)) \<and>
   lastSyncTime (settings (snd (syncFile e now file w))) =
     (if fst (syncFile e now file w) then now else lastSyncTime (settings w)) \<and>
   lastSyncTime (settings (snd (syncAllFiles e now w))) =
     (if \<not> syncInProgress w \<and> r2Service w \<and>
         (\<forall>f\<in>set (getFilesToSync (uploadPhaseWorld e w)). readable e (uploadPhaseWorld e w) f)
      then now else lastSyncTime (settings w)) \<and>
   lastSyncTime (settings (snd (syncMissingFiles e now w))) =
     (if \<not> syncInProgress w \<and> r2Service w \<and>
         (\<forall>f\<in>set (getFilesToSync w).
            fileKey w f \<notin> set (listFiles e (bucket w) (effectiveBaseFolder w)) \<longrightarrow> readable e w f)
      then now else lastSyncTime (settings w))"
  using syncFile_result [of e now "file" w] syncFile_lastSyncTime [of e now "file" w]
    syncAllFiles_lastSyncTime [of e now w] syncMissingFiles_lastSyncTime [of e now w]
  by blast

lemma world0_files:
  "getFilesToSync (uploadPhaseWorld e world0) = [tfile ''a.md'', tfile ''b.md'']"
  "vault (uploadPhaseWorld e world0) = vault world0"
  by (simp_all add: uploadPhaseWorld_def world0_def settings0_def setInProgress_def
        getFilesToSync_def effectiveBaseFolder_def startsWith_def tfile_def Let_def)

lemma world0_readable_direct:
  "readable e world0 (tfile ''a.md'') \<longleftrightarrow> \<not> readThrows e ''a.md''"
  "readable e world0 (tfile ''b.md'') \<longleftrightarrow> \<not> readThrows e ''b.md''"
  by (simp_all add: readable_def readFileContentWithType_def tfile_def
        fileName_def fileExtension_def toLowerCase_def vaultRead_def getAbstractFileByPath_def
        world0_def Let_def)

lemma world0_readable:
  "readable e (uploadPhaseWorld e' world0) (tfile ''a.md'') \<longleftrightarrow> \<not> readThrows e ''a.md''"
  "readable e (uploadPhaseWorld e' world0) (tfile ''b.md'') \<longleftrightarrow> \<not> readThrows e ''b.md''"
  "readable e world0 (tfile ''a.md'') \<longleftrightarrow> \<not> readThrows e ''a.md''"
  using world0_readable_direct [of e] readable_frame [OF world0_files(2), of e e']
  by simp_all

lemma world0_keys:
  "fileKey world0 (tfile ''a.md'') = ''Vault/a.md''"
  "fileKey world0 (tfile ''b.md'') = ''Vault/b.md''"
  by (simp_all add: fileKey_def getFileKey_def world0_def settings0_def tfile_def startsWith_def)

lemma world0_guard:
  "\<not> syncInProgress world0" "r2Service world0" "lastSyncTime (settings world0) = []"
  by (simp_all add: world0_def settings0_def)

text \<open>
  C3, amended, on the example world: a failed and a successful \<open>syncFile\<close>, a pass whose
  uploads all fail and a pass in which a read throws.
\<close>

theorem C3_lastSyncTime_updates_witness:
  "lastSyncTime (settings (snd (syncFile env_putFails ''2026-01-01T00:00:00.000Z''
      (tfile ''a.md'') world0))) = [] \<and>
   lastSyncTime (settings (snd (syncFile env_ok ''2026-01-01T00:00:00.000Z''
      (tfile ''a.md'') world0))) = ''2026-01-01T00:00:00.000Z'' \<and>
   lastSyncTime (settings (snd (syncAllFiles env_putFails ''2026-01-01T00:00:00.000Z'' world0)))
     = ''2026-01-01T00:00:00.000Z'' \<and>
   lastSyncTime (settings (snd (syncAllFiles env_readThrows_b ''2026-01-01T00:00:00.000Z'' world0)))
     = []"
proof -
  let ?now = "''2026-01-01T00:00:00.000Z''"
  let ?a = "tfile ''a.md''"
  have e1: "putFails env_putFails k" "\<not> readThrows env_putFails p" for k p
    by (simp_all add: env_putFails_def env_ok_def)
  have e2: "\<not> putFails env_ok k" "\<not> readThrows env_ok p" for k p
    by (simp_all add: env_ok_def)
  have e3: "readThrows env_readThrows_b ''b.md''"
    by (simp add: env_readThrows_b_def env_ok_def)
  from C3_lastSyncTime_updates [of env_putFails ?now ?a world0] e1
  have one: "lastSyncTime (settings (snd (syncFile env_putFails ?now ?a world0))) = []"
    by (simp add: world0_guard)
  from C3_lastSyncTime_updates [of env_ok ?now ?a world0] e2
  have two: "lastSyncTime (settings (snd (syncFile env_ok ?now ?a world0))) = ?now"
    by (simp add: world0_guard world0_readable)
  from C3_lastSyncTime_updates [of env_putFails ?now ?a world0] e1
  have three: "lastSyncTime (settings (snd (syncAllFiles env_putFails ?now world0))) = ?now"
    by (simp add: world0_guard world0_files(1) world0_readable)
  from C3_lastSyncTime_updates [of env_readThrows_b ?now ?a world0] e3
  have four: "lastSyncTime (settings (snd (syncAllFiles env_readThrows_b ?now world0))) = []"
    by (simp add: world0_guard world0_files(1) world0_readable)
  from one two three four show ?thesis by blast
qed

text \<open>
  C7, as the spec states it: \<open>syncAllFiles\<close> returns true if and only if at least one
  upload succeeded. Here the upload of \<open>a.md\<close> succeeds (the object is in the bucket
  afterwards), then the read of \<open>b.md\<close> throws, and \<open>syncAllFiles\<close> returns false.
\<close>

theorem C7_syncAllFiles_counterexample:
  "fst (syncAllFiles env_readThrows_b ''2026-01-01T00:00:00.000Z'' world0) = False \<and>
   bucket world0 = [] \<and>
   bucket (snd (syncAllFiles env_readThrows_b ''2026-01-01T00:00:00.000Z'' world0))
     = [(''Vault/a.md'', ''alpha'', ''text/markdown'')]"
  by (simp add: syncAllFiles_def world0_def settings0_def env_readThrows_b_def env_ok_def
        setInProgress_def notify_def getFilesToSync_def effectiveBaseFolder_def startsWith_def
        tfile_def fileName_def fileExtension_def readFileContentWithType_def toLowerCase_def
        vaultRead_def getAbstractFileByPath_def uploadFile_def fileKey_def getFileKey_def
        setLastSyncTime_def Let_def)

text \<open>
  C7, amended. \<open>syncAllFiles\<close> returns true if and only if it is not rejected, no read
  of a file of the upload phase throws, and the upload of at least one of these files
  succeeds. When it is not rejected and no read throws, failed uploads do not end the
  pass: its last notice gives the counts, all \<open>n\<close> files or \<open>k\<close> of \<open>n\<close>, where \<open>k\<close> is the
  number of files whose upload succeeds.
\<close>

theorem C7_syncAllFiles_result:
  "(fst (syncAllFiles e now w) \<longleftrightarrow>
     \<not> syncInProgress w \<and> r2Service w \<and>
     (\<forall>f\<in>set (getFilesToSync (uploadPhaseWorld e w)). readable e (uploadPhaseWorld e w) f) \<and>
     (\<exists>f\<in>set (getFilesToSync (uploadPhaseWorld e w)). \<not> putFails e (fileKey w f))) \<and>
   (\<not> syncInProgress w \<and> r2Service w \<and>
     (\<forall>f\<in>set (getFilesToSync (uploadPhaseWorld e w)). readable e (uploadPhaseWorld e w) f) \<longrightarrow>
    last (notices (snd (syncAllFiles e now w))) =
     (if length (filter (\<lambda>f. \<not> putFails e (fileKey w f)) (getFilesToSync (uploadPhaseWorld e w)))
           = length (getFilesToSync (uploadPhaseWorld e w))
      then SyncedAll (length (getFilesToSync (uploadPhaseWorld e w)))
      else SyncedCounts
             (length (filter (\<lambda>f. \<not> putFails e (fileKey w f))
                        (getFilesToSync (uploadPhaseWorld e w))))
             (length (getFilesToSync (uploadPhaseWorld e w)))))"
  using syncAllFiles_true_iff [of e now w] syncAllFiles_last_notice [of w e now]
  by blast

text \<open>
  C7, amended, on the example world with the upload of \<open>b.md\<close> failing: the pass returns
  true and reports 1 of 2.
\<close>

theorem C7_syncAllFiles_result_witness:
  "fst (syncAllFiles env_putFails_b ''2026-01-01T00:00:00.000Z'' world0) \<and>
   last (notices (snd (syncAllFiles env_putFails_b ''2026-01-01T00:00:00.000Z'' world0)))
     = SyncedCounts 1 2"
proof -
  let ?now = "''2026-01-01T00:00:00.000Z''"
  have rt: "\<not> readThrows env_putFails_b p" for p
    by (simp add: env_putFails_b_def env_ok_def)
  have rd: "\<forall>f\<in>set (getFilesToSync (uploadPhaseWorld env_putFails_b world0)).
              readable env_putFails_b (uploadPhaseWorld env_putFails_b world0) f"
    by (simp add: world0_files(1) world0_readable rt)
  have pf: "\<not> putFails env_putFails_b ''Vault/a.md''" "putFails env_putFails_b ''Vault/b.md''"
    by (simp_all add: env_putFails_b_def env_ok_def)
  note inst = C7_syncAllFiles_result [of env_putFails_b ?now world0]
  from inst rd pf have one: "fst (syncAllFiles env_putFails_b ?now world0)"
    by (simp add: world0_files(1) world0_guard world0_keys)
  from inst rd
  have "last (notices (snd (syncAllFiles env_putFails_b ?now world0))) =
     (if length (filter (\<lambda>f. \<not> putFails env_putFails_b (fileKey world0 f))
                   (getFilesToSync (uploadPhaseWorld env_putFails_b world0)))
           = length (getFilesToSync (uploadPhaseWorld env_putFails_b world0))
      then SyncedAll (length (getFilesToSync (uploadPhaseWorld env_putFails_b world0)))
      else SyncedCounts
             (length (filter (\<lambda>f. \<not> putFails env_putFails_b (fileKey world0 f))
                        (getFilesToSync (uploadPhaseWorld env_putFails_b world0))))
             (length (getFilesToSync (uploadPhaseWorld env_putFails_b world0))))"
    using world0_guard by blast
  then have two: "last (notices (snd (syncAllFiles env_putFails_b ?now world0))) = SyncedCounts 1 2"
    by (simp add: world0_files(1) world0_keys pf)
  from one two show ?thesis by blast
qed

text \<open>
  C8: \<open>syncFile\<close>, called while a pass is in flight or while no client is configured,
  returns false and leaves everything as it was: the bucket, the vault, the settings
  with \<open>lastSyncTime\<close>, the flags and the notices.
\<close>

theorem C8_syncFile_rejected:
  "syncInProgress w \<or> \<not> r2Service w \<Longrightarrow> syncFile e now file w = (False, w)"
  by (simp add: syncFile_def)

text \<open>
  C8 on the example world, once with a pass in flight and once without a client.
\<close>

theorem C8_syncFile_rejected_witness:
  "syncFile env_ok ''2026-01-01T00:00:00.000Z'' (tfile ''a.md'') (world0\<lparr>syncInProgress := True\<rparr>)
     = (False, world0\<lparr>syncInProgress := True\<rparr>) \<and>
   syncFile env_ok ''2026-01-01T00:00:00.000Z'' (tfile ''a.md'') (world0\<lparr>r2Service := False\<rparr>)
     = (False, world0\<lparr>r2Service := False\<rparr>)"
proof -
  have a: "syncInProgress (world0\<lparr>syncInProgress := True\<rparr>)
           \<or> \<not> r2Service (world0\<lparr>syncInProgress := True\<rparr>)"
    by simp
  have b: "syncInProgress (world0\<lparr>r2Service := False\<rparr>) \<or> \<not> r2Service (world0\<lparr>r2Service := False\<rparr>)"
    by simp
  from C8_syncFile_rejected [OF a] C8_syncFile_rejected [OF b] show ?thesis by blast
qed

section \<open>Properties of the download phase and of the backups\<close>

lemma split_nonempty: "split c s \<noteq> []"
  by (induction s) (auto split: list.splits)

lemma join_Cons: "xs \<noteq> [] \<Longrightarrow> join c (x # xs) = x @ c # join c xs"
  by (cases xs) simp_all

lemma join_split: "join c (split c s) = s"
proof (induction s)
  case Nil
  then show ?case by simp
next
  case (Cons x s)
  show ?case
  proof (cases "x = c")
    case True
    then show ?thesis using Cons split_nonempty [of c s] by (simp add: join_Cons)
  next
    case False
    obtain y ys where sp: "split c s = y # ys"
      using split_nonempty [of c s] by (cases "split c s") auto
    with Cons have "join c (y # ys) = s" by simp
    then have "join c ((x # y) # ys) = x # s"
      by (cases ys) auto
    with False sp show ?thesis by simp
  qed
qed

lemma join_snoc: "xs \<noteq> [] \<Longrightarrow> join c (xs @ [x]) = join c xs @ c # x"
proof (induction xs)
  case Nil
  then show ?case by simp
next
  case (Cons a xs)
  show ?case
  proof (cases "xs = []")
    case True
    then show ?thesis by simp
  next
    case False
    with Cons.IH have "join c (xs @ [x]) = join c xs @ c # x" by simp
    with False show ?thesis by (simp add: join_Cons)
  qed
qed

lemma dirPath_shorter:
  assumes "length (split c s) > 1"
  shows "length (join c (butlast (split c s))) < length s"
proof -
  define xs where "xs = butlast (split c s)"
  define x where "x = last (split c s)"
  have ne: "split c s \<noteq> []" by (rule split_nonempty)
  then have sp: "split c s = xs @ [x]"
    unfolding xs_def x_def by (rule append_butlast_last_id [symmetric])
  from assms sp have b: "xs \<noteq> []" by auto
  have "join c (xs @ [x]) = s"
    using join_split [of c s] unfolding sp .
  then have "s = join c xs @ c # x"
    using join_snoc [OF b, of c x] by simp
  then have "length s = length (join c xs) + 1 + length x"
    by simp
  then show ?thesis unfolding xs_def by simp
qed

lemma map_of_modify:
  "map_of v p = Some (File lc) \<Longrightarrow> map_of (modify v p rc) p = Some (File rc)"
  by (induction v) (auto simp: modify_def split: if_splits)

text \<open>
  One turn of the download loop on a key that is not under \<open>backups/\<close> and whose fetched
  content is not empty: a local file with the same content is left as it is, one with
  another content is overwritten, and where nothing is at the mapped path the file is
  created, after its parent folder when that was missing.
\<close>

lemma downloadOne_nonempty_existing:
  assumes "\<not> startsWith key ''backups/''"
    and "downloadFile e (bucket w) key = Some rc" and "rc \<noteq> []"
    and "getAbstractFileByPath v (localPathFromKey w key) = Some (File lc)"
    and "\<not> readThrows e (localPathFromKey w key)"
  shows "downloadOne e w key (v, d, u) =
           (if rc = lc then Inr (v, d, u)
            else Inr (modify v (localPathFromKey w key) rc, d, u + 1))"
    and "rc \<noteq> lc \<Longrightarrow>
           getAbstractFileByPath (modify v (localPathFromKey w key) rc) (localPathFromKey w key)
             = Some (File rc)"
proof -
  show "downloadOne e w key (v, d, u) =
           (if rc = lc then Inr (v, d, u)
            else Inr (modify v (localPathFromKey w key) rc, d, u + 1))"
    using assms by (simp add: downloadOne_def Let_def vaultRead_def tfile_def)
  show "getAbstractFileByPath (modify v (localPathFromKey w key) rc) (localPathFromKey w key)
             = Some (File rc)"
    using assms(4) by (simp add: getAbstractFileByPath_def map_of_modify)
qed

lemma downloadOne_nonempty_missing:
  assumes "\<not> startsWith key ''backups/''"
    and "downloadFile e (bucket w) key = Some rc" and "rc \<noteq> []"
    and "getAbstractFileByPath v (localPathFromKey w key) = None"
  shows "\<exists>v'. downloadOne e w key (v, d, u) = Inr (v', d + 1, u) \<and>
           getAbstractFileByPath v' (localPathFromKey w key) = Some (File rc) \<and>
           (length (split CHR ''/'' (localPathFromKey w key)) > 1 \<longrightarrow>
              getAbstractFileByPath v'
                (join CHR ''/'' (butlast (split CHR ''/'' (localPathFromKey w key)))) \<noteq> None)"
proof -
  define lp where "lp = localPathFromKey w key"
  define dir where "dir = join CHR ''/'' (butlast (split CHR ''/'' lp))"
  have no: "map_of v lp = None"
    using assms(4) by (simp add: lp_def getAbstractFileByPath_def)
  show ?thesis
  proof (cases "length (split CHR ''/'' lp) > 1")
    case False
    then have "downloadOne e w key (v, d, u) = Inr (v @ [(lp, File rc)], d + 1, u)"
      using assms no
      by (simp add: downloadOne_def Let_def lp_def [symmetric] create_def
            getAbstractFileByPath_def)
    with False no show ?thesis
      by (simp add: lp_def [symmetric] getAbstractFileByPath_def map_add_def)
  next
    case True
    from dirPath_shorter [OF True] have neq: "dir \<noteq> lp"
      by (auto simp: dir_def)
    show ?thesis
    proof (cases "map_of v dir")
      case None
      then have "downloadOne e w key (v, d, u)
                   = Inr ((v @ [(dir, Folder)]) @ [(lp, File rc)], d + 1, u)"
        using assms no True neq
        by (simp add: downloadOne_def Let_def lp_def [symmetric] dir_def [symmetric]
              create_def createFolder_def getAbstractFileByPath_def map_add_def
              del: append_assoc)
      with True no None neq show ?thesis
        by (simp add: lp_def [symmetric] dir_def [symmetric] getAbstractFileByPath_def
              map_add_def del: append_assoc)
    next
      case (Some en)
      then have "downloadOne e w key (v, d, u) = Inr (v @ [(lp, File rc)], d + 1, u)"
        using assms no True neq
        by (simp add: downloadOne_def Let_def lp_def [symmetric] dir_def [symmetric]
              create_def getAbstractFileByPath_def)
      with True no Some neq show ?thesis
        by (simp add: lp_def [symmetric] dir_def [symmetric] getAbstractFileByPath_def
              map_add_def)
    qed
  qed
qed

text \<open>
  A marker whose key does not end with \<open>backup_marker\<close> is not listed, and
  \<open>cleanupOldBackups\<close> with 0 days counts every listed backup dated before \<open>now\<close>.
\<close>

lemma listBackups_skips_marker:
  assumes "\<not> endsWith (''backups/'' @ ts @ ''/'' @ folder) ''backup_marker''"
  shows "listBackups e (snd (createBackup e [] folder ts)) = []"
  using assms
  by (simp add: listBackups_def createBackup_def listKeys_def sortBackups_def Let_def)

lemma cleanupLoop_count:
  "fst (cleanupLoop e cutoff xs b n) =
     n + length (filter (\<lambda>x. case dateParse e (timestamp x) of
                               None \<Rightarrow> False | Some t \<Rightarrow> t < cutoff) xs)"
  by (induction xs arbitrary: b n) (auto split: option.splits)

lemma cleanupOldBackups_zero_count:
  "fst (cleanupOldBackups e now b 0) =
     length (filter (\<lambda>x. case dateParse e (timestamp x) of
                           None \<Rightarrow> False | Some t \<Rightarrow> t < now) (listBackups e b))"
  by (simp add: cleanupOldBackups_def cleanupLoop_count)

text \<open>
  C4 on a remote object with an empty body. Both keys are listed and are not under
  \<open>backups/\<close>. \<open>Vault/a.md\<close> maps to the local file \<open>a.md\<close>, whose content \<open>old\<close>
  differs from the fetched content, the empty string: the claim has the local file
  overwritten, the code leaves it. \<open>Vault/new.md\<close> maps to \<open>new.md\<close>, where there is no
  local file, and its content is retrieved: the claim has the file created, the code
  creates nothing. The download phase returns true and changes nothing.
\<close>

theorem C4_empty_remote_content:
  "listFiles env_ok (bucket worldD) (effectiveBaseFolder worldD) = [''Vault/a.md'', ''Vault/new.md''] \<and>
   localPathFromKey worldD ''Vault/a.md'' = ''a.md'' \<and>
   getAbstractFileByPath (vault worldD) ''a.md'' = Some (File ''old'') \<and>
   downloadFile env_ok (bucket worldD) ''Vault/a.md'' = Some [] \<and>
   localPathFromKey worldD ''Vault/new.md'' = ''new.md'' \<and>
   getAbstractFileByPath (vault worldD) ''new.md'' = None \<and>
   downloadFile env_ok (bucket worldD) ''Vault/new.md'' = Some [] \<and>
   downloadRemoteChanges env_ok worldD = (True, worldD)"
  by code_simp

text \<open>
  C5 on \<open>createBackup("Notes", "2026-01-01T00-00-00-000Z")\<close> on an empty bucket. It
  succeeds and writes the marker at \<open>backups/2026-01-01T00-00-00-000Z/Notes\<close>; the marker
  parses; \<open>listBackups\<close> then returns no entry, because it reads only the keys that end
  with \<open>backup_marker\<close>.
\<close>

theorem C5_marker_not_listed:
  "createBackup env_ok [] ''Notes'' ''2026-01-01T00-00-00-000Z'' = (True, notesBucket) \<and>
   notesBucket = [(''backups/2026-01-01T00-00-00-000Z/Notes'',
                   markerJson notesMarker, ''application/json'')] \<and>
   markerParse (markerJson notesMarker) = Some notesMarker \<and>
   listBackups env_ok notesBucket = []"
  by code_simp

text \<open>
  C2 on a bucket with one backup from 2020 whose key ends with \<open>backup_marker\<close>, at
  2026-01-01T00:00:00Z: \<open>listBackups\<close> lists it, and \<open>cleanupOldBackups\<close> with 0 days
  deletes it and returns 1.
\<close>

theorem C2_cleanup_zero_deletes:
  "oldBucket = [(''backups/2020-01-01T00:00:00.000Z/backup_marker'',
                 markerJson oldMarker, ''application/json'')] \<and>
   listBackups env_ok oldBucket = [oldMarker] \<and>
   cleanupOldBackups env_ok 1767225600000 oldBucket 0 = (1, [])"
  by code_simp


text \<open>
  C4: what is left in the vault of that world after the download phase.
\<close>

theorem C4_empty_remote_content_witness:
  "getAbstractFileByPath (vault (snd (downloadRemoteChanges env_ok worldD))) ''a.md''
     = Some (File ''old'') \<and>
   getAbstractFileByPath (vault (snd (downloadRemoteChanges env_ok worldD))) ''new.md'' = None"
proof -
  from C4_empty_remote_content
  have "downloadRemoteChanges env_ok worldD = (True, worldD)" by blast
  then show ?thesis
    by (simp add: worldD_def getAbstractFileByPath_def)
qed

section \<open>Properties of the debounced sync\<close>











lemma toInt32_in_range: "0 \<le> n \<Longrightarrow> n \<le> 2147483647 \<Longrightarrow> toInt32 n = n"
  by (simp add: toInt32_def)

lemma delayMs_in_range:
  "0 \<le> syncDelay p * 1000 \<Longrightarrow> syncDelay p * 1000 \<le> 2147483647 \<Longrightarrow>
   delayMs p = syncDelay p * 1000"
  by (simp add: delayMs_def toInt32_in_range)

lemma delayMs_bounds: "0 \<le> delayMs p \<and> delayMs p \<le> 2147483647"
proof -
  define m where "m = syncDelay p * 1000 mod 4294967296"
  have range: "m < 4294967296" "0 \<le> m"
    by (simp_all add: m_def)
  show ?thesis
    unfolding delayMs_def toInt32_def Let_def m_def [symmetric]
    using range by simp
qed



end
